theory Spec2Isabelle
  imports Complex_Main
begin

section \<open>The counting worker of JC.PY (class VideoThread)\<close>

text \<open>
  The theory embeds the processing part of \<^verbatim>\<open>VideoThread\<close>: its fields as a record,
  each method as a function from the worker's state to the new state and the list of
  effects the method has on its surroundings (signals emitted, the capture handle
  released or rewound, the model freed). What the host decides (whether a path exists,
  whether a capture opens, what the loaded network answers on a frame) is an input of the
  functions. The pixels drawn on the frame, logging other than the counting message,
  sleeping and the mutex are not part of the model: the functions describe one thread of
  execution. Of the drawing the model keeps when it raises.
\<close>

subsection \<open>Values\<close>

text \<open>
  A floating-point value, a coordinate of a box or a Python float: finite, and then the
  real number it denotes, or one of the three non-finite values.
\<close>

datatype npfloat = Finite real | NaN | PosInf | NegInf

text \<open>
  A value stored in the \<^verbatim>\<open>params\<close> dictionary: a Python int, float, bool or string.
  \<^verbatim>\<open>update_params\<close> stores whatever it is given, so the dictionary is not typed by key.
\<close>

datatype pval = IntV int | FloatV npfloat | BoolV bool | StrV string

text \<open>The result of Python arithmetic on numbers: an int or a float.\<close>

datatype pynum = PInt int | PFloat npfloat

datatype source = Camera int | File string

type_synonym box = "npfloat \<times> npfloat \<times> npfloat \<times> npfloat"

type_synonym detection = "box \<times> int"

text \<open>
  The exceptions the modelled code can raise, named by the place that raises them:
  \<^verbatim>\<open>int(nan)\<close> is a ValueError and \<^verbatim>\<open>int(inf)\<close> an OverflowError; OpenCV refuses a
  coordinate that does not fit a C int; a missing key of \<^verbatim>\<open>params\<close> is a KeyError,
  arithmetic on a string a TypeError and the conversion to float of an int beyond the
  range of a double an OverflowError; the three checks of
  \<^verbatim>\<open>set_source\<close> raise ValueError, FileNotFoundError and ValueError, a capture that does
  not open raises ValueError; \<^verbatim>\<open>load_model\<close> raises FileNotFoundError and ValueError, and
  the backend whatever it raises.
\<close>

datatype error =
    IntOfNaN
  | IntOfInf
  | DrawError
  | KeyError string
  | TypeError
  | IntTooLargeForFloat
  | CameraUnavailable int
  | VideoFileMissing string
  | UnsupportedVideoFormat
  | CannotOpenSource source
  | ModelFileMissing string
  | UnsupportedModelFormat
  | BackendError string
  | DetectError string

text \<open>
  The effects of the methods. \<^verbatim>\<open>UpdateCount total current\<close> is the signal
  \<^verbatim>\<open>update_count\<close> without its elapsed time; \<^verbatim>\<open>CountedLog tid n\<close> is the log line
  written when an identifier is counted.
\<close>

datatype event =
    ChangePixmap
  | UpdateCount int int
  | ErrorSignal error
  | FinishedSignal
  | ModelLoaded bool
  | ParamsUpdated
  | CapRelease
  | CapRewind
  | ModelFreed
  | CountedLog int int
  | ThreadQuit

subsection \<open>The state of the worker\<close>

record cam_info =
  cam_index :: int
  resolution :: "int \<times> int"
  fps :: int

record capture =
  cap_source :: source
  is_opened :: bool

text \<open>A loaded network: its \<^verbatim>\<open>args\<close> dictionary, and whether \<^verbatim>\<open>fuse()\<close> raises on it.\<close>

record yolo =
  args :: "string \<rightharpoonup> pval"
  fuse_fails :: "string option"

record worker =
  params :: "string \<rightharpoonup> pval"
  model :: "yolo option"
  model_path :: string
  source :: source
  running :: bool
  pause :: bool
  cap :: "capture option"
  tracked_objects :: "int \<rightharpoonup> box"
  next_id :: int
  frame_height :: int
  total_count :: int
  counted_ids :: "int set"
  device :: string
  available_cameras :: "int \<rightharpoonup> cam_info"

text \<open>What the host answers: the file system, the capture backend and the model loader.\<close>

record env =
  path_exists :: "string \<Rightarrow> bool"
  can_open :: "source \<Rightarrow> bool"
  height_prop :: "source \<Rightarrow> real"
  yolo_load :: "string \<Rightarrow> string \<Rightarrow> string + yolo"

text \<open>
  The dictionary of the constructor. The float defaults are the doubles the literals
  0.5 and 0.4 denote; the second is 3602879701896397 / 2^53.
\<close>

definition default_params :: "string \<rightharpoonup> pval" where
  "default_params =
     [''track_dist'' \<mapsto> IntV 50,
      ''detect_bottom'' \<mapsto> IntV 20,
      ''min_area'' \<mapsto> IntV 50,
      ''max_area'' \<mapsto> IntV 5000,
      ''model_conf'' \<mapsto> FloatV (Finite (1 / 2)),
      ''model_nms'' \<mapsto> FloatV (Finite (3602879701896397 / 9007199254740992)),
      ''model_size'' \<mapsto> IntV 640,
      ''track_enabled'' \<mapsto> BoolV True,
      ''track_buffer'' \<mapsto> IntV 30,
      ''track_min_hits'' \<mapsto> IntV 3]"

text \<open>\<^verbatim>\<open>__init__\<close>, with the probed device and cameras as arguments.\<close>

definition init :: "string \<Rightarrow> (int \<rightharpoonup> cam_info) \<Rightarrow> worker" where
  "init dev cams =
     \<lparr>params = default_params, model = None, model_path = [], source = Camera 0,
      running = False, pause = False, cap = None, tracked_objects = Map.empty,
      next_id = 1, frame_height = 0, total_count = 0, counted_ids = {},
      device = dev, available_cameras = cams\<rparr>"

subsection \<open>Helpers of the Python runtime\<close>

text \<open>\<^verbatim>\<open>int(v)\<close> on a float truncates towards zero and raises on a non-finite value.\<close>

definition py_trunc :: "real \<Rightarrow> int" where
  "py_trunc r = (if 0 \<le> r then \<lfloor>r\<rfloor> else \<lceil>r\<rceil>)"

fun py_int :: "npfloat \<Rightarrow> error + int" where
  "py_int (Finite r) = Inr (py_trunc r)"
| "py_int NaN = Inl IntOfNaN"
| "py_int PosInf = Inl IntOfInf"
| "py_int NegInf = Inl IntOfInf"

text \<open>\<^verbatim>\<open>[int(v) for v in box]\<close>: the four conversions in order, the first failure raised.\<close>

definition int_box :: "box \<Rightarrow> error + (int \<times> int \<times> int \<times> int)" where
  "int_box b =
     (case b of (bx, by, bw, bh) \<Rightarrow>
        (case py_int bx of Inl e \<Rightarrow> Inl e | Inr x \<Rightarrow>
        (case py_int by of Inl e \<Rightarrow> Inl e | Inr y \<Rightarrow>
        (case py_int bw of Inl e \<Rightarrow> Inl e | Inr w \<Rightarrow>
        (case py_int bh of Inl e \<Rightarrow> Inl e | Inr h \<Rightarrow> Inr (x, y, w, h))))))"

text \<open>
  \<^verbatim>\<open>cv2.rectangle(frame, (x, y), (x+w, y+h), ...)\<close> and
  \<^verbatim>\<open>cv2.putText(frame, ..., (x, y-5), ...)\<close>: the binding converts every coordinate to a
  C int, of 32 bits, and raises when one does not fit; the sums and the difference are
  Python's, on unbounded ints.
\<close>

definition fits_c_int :: "int \<Rightarrow> bool" where
  "fits_c_int n = (- (2 ^ 31) \<le> n \<and> n < 2 ^ 31)"

definition draw_detection :: "int \<times> int \<times> int \<times> int \<Rightarrow> error option" where
  "draw_detection r =
     (case r of (x, y, w, h) \<Rightarrow>
        if fits_c_int x \<and> fits_c_int y \<and> fits_c_int (x + w) \<and> fits_c_int (y + h)
           \<and> fits_c_int (y - 5)
        then None else Some DrawError)"

text \<open>
  Double arithmetic. A real is rounded to the nearest double, ties to the even
  significand: with e the exponent of the binade of x, not below that of the subnormals,
  the doubles near x are the multiples of 2^(e - 52); a result of magnitude 2^1024 or more
  overflows to an infinity.
\<close>

definition round_even :: "real \<Rightarrow> int" where
  "round_even m =
     (let f = \<lfloor>m\<rfloor>; d = m - of_int f
      in if d < 1 / 2 then f else if 1 / 2 < d then f + 1 else if even f then f else f + 1)"

definition round_double :: "real \<Rightarrow> npfloat" where
  "round_double x =
     (if x = 0 then Finite 0
      else
        (let e = max \<lfloor>log 2 \<bar>x\<bar>\<rfloor> (- 1022);
             q = 2 powr of_int (e - 52);
             y = of_int (round_even (x / q)) * q
         in if 2 ^ 1024 \<le> \<bar>y\<bar> then (if 0 < x then PosInf else NegInf) else Finite y))"

text \<open>The conversion of a Python int to a float: rounded, OverflowError beyond the range.\<close>

definition py_float :: "int \<Rightarrow> error + real" where
  "py_float i =
     (case round_double (of_int i) of
        Finite a \<Rightarrow> Inr a
      | NaN \<Rightarrow> Inl IntTooLargeForFloat
      | PosInf \<Rightarrow> Inl IntTooLargeForFloat
      | NegInf \<Rightarrow> Inl IntTooLargeForFloat)"

text \<open>The difference of a finite double and a float.\<close>

fun float_sub :: "real \<Rightarrow> npfloat \<Rightarrow> npfloat" where
  "float_sub a (Finite b) = round_double (a - b)"
| "float_sub a NaN = NaN"
| "float_sub a PosInf = NegInf"
| "float_sub a NegInf = PosInf"

text \<open>
  \<^verbatim>\<open>i - v\<close> for a Python int i and a dictionary value v: exact on an int and on a bool,
  which is the int 0 or 1; in doubles, after the conversion of i, on a float; a TypeError
  on a string.
\<close>

fun py_sub :: "int \<Rightarrow> pval \<Rightarrow> error + pynum" where
  "py_sub i (IntV d) = Inr (PInt (i - d))"
| "py_sub i (BoolV b) = Inr (PInt (i - (if b then 1 else 0)))"
| "py_sub i (FloatV f) =
     (case py_float i of Inl err \<Rightarrow> Inl err | Inr a \<Rightarrow> Inr (PFloat (float_sub a f)))"
| "py_sub i (StrV s) = Inl TypeError"

text \<open>
  \<^verbatim>\<open>b > n\<close> for a Python int b: Python compares an int with a float by their exact
  values, and nothing is greater than NaN.
\<close>

fun py_gt :: "int \<Rightarrow> pynum \<Rightarrow> bool" where
  "py_gt b (PInt n) = (n < b)"
| "py_gt b (PFloat (Finite r)) = (r < of_int b)"
| "py_gt b (PFloat NaN) = False"
| "py_gt b (PFloat PosInf) = False"
| "py_gt b (PFloat NegInf) = True"

text \<open>
  \<^verbatim>\<open>str.lower()\<close> on the ASCII letters and \<^verbatim>\<open>str.endswith\<close>; the suffixes the code
  tests are ASCII.
\<close>

definition lower_char :: "char \<Rightarrow> char" where
  "lower_char c =
     (let n = (of_char c :: nat) in if 65 \<le> n \<and> n \<le> 90 then char_of (n + 32) else c)"

definition str_lower :: "string \<Rightarrow> string" where
  "str_lower s = map lower_char s"

definition endswith :: "string \<Rightarrow> string \<Rightarrow> bool" where
  "endswith s suf = (length suf \<le> length s \<and> drop (length s - length suf) s = suf)"

text \<open>\<^verbatim>\<open>self.cap and self.cap.isOpened()\<close>\<close>

definition cap_open :: "worker \<Rightarrow> bool" where
  "cap_open st = (case cap st of None \<Rightarrow> False | Some c \<Rightarrow> is_opened c)"

text \<open>The guarded \<^verbatim>\<open>self.cap.release()\<close> that opens \<^verbatim>\<open>set_source\<close> and \<^verbatim>\<open>stop\<close>.\<close>

definition release_cap :: "worker \<Rightarrow> worker \<times> event list" where
  "release_cap st =
     (case cap st of
        None \<Rightarrow> (st, [])
      | Some c \<Rightarrow>
          if is_opened c then (st\<lparr>cap := Some (c\<lparr>is_opened := False\<rparr>)\<rparr>, [CapRelease])
          else (st, []))"

text \<open>The guarded \<^verbatim>\<open>del self.model; self.model = None\<close> of \<^verbatim>\<open>load_model\<close> and \<^verbatim>\<open>stop\<close>.\<close>

definition free_model :: "worker \<Rightarrow> worker \<times> event list" where
  "free_model st =
     (case model st of
        None \<Rightarrow> (st, [])
      | Some m \<Rightarrow> (st\<lparr>model := None\<rparr>, [ModelFreed]))"

subsection \<open>The methods\<close>

definition reset_counters :: "worker \<Rightarrow> worker" where
  "reset_counters st =
     st\<lparr>total_count := 0, counted_ids := {}, tracked_objects := Map.empty, next_id := 1\<rparr>"

definition imgsz_of :: "yolo \<Rightarrow> pval" where
  "imgsz_of m = (case args m ''imgsz'' of None \<Rightarrow> IntV 640 | Some v \<Rightarrow> v)"

definition load_model :: "env \<Rightarrow> worker \<Rightarrow> string \<Rightarrow> worker \<times> event list" where
  "load_model e st path =
     (let (st1, ev1) = free_model st in
      if \<not> path_exists e path then
        (st1, ev1 @ [ErrorSignal (ModelFileMissing path), ModelLoaded False])
      else if \<not> (endswith (str_lower path) ''.pt'' \<or> endswith (str_lower path) ''.pth'') then
        (st1, ev1 @ [ErrorSignal UnsupportedModelFormat, ModelLoaded False])
      else
        (case yolo_load e path (device st1) of
           Inl msg \<Rightarrow> (st1, ev1 @ [ErrorSignal (BackendError msg), ModelLoaded False])
         | Inr m \<Rightarrow>
             (let st2 = st1\<lparr>model := Some m\<rparr> in
              case fuse_fails m of
                Some msg \<Rightarrow> (st2, ev1 @ [ErrorSignal (BackendError msg), ModelLoaded False])
              | None \<Rightarrow>
                  (st2\<lparr>params := (params st2)(''model_size'' \<mapsto> imgsz_of m),
                       model_path := path\<rparr>,
                   ev1 @ [ModelLoaded True]))))"

text \<open>The checks of \<^verbatim>\<open>set_source\<close> between the assignment of the source and the open.\<close>

definition check_source :: "env \<Rightarrow> worker \<Rightarrow> source \<Rightarrow> error option" where
  "check_source e st src =
     (case src of
        Camera i \<Rightarrow>
          (if available_cameras st i = None then Some (CameraUnavailable i) else None)
      | File p \<Rightarrow>
          (if \<not> path_exists e p then Some (VideoFileMissing p)
           else if \<not> (endswith (str_lower p) ''.mp4'' \<or> endswith (str_lower p) ''.avi''
                       \<or> endswith (str_lower p) ''.mkv'')
           then Some UnsupportedVideoFormat
           else None))"

definition set_source :: "env \<Rightarrow> worker \<Rightarrow> source \<Rightarrow> worker \<times> event list" where
  "set_source e st src =
     (let (st1, ev1) = release_cap st;
          st2 = st1\<lparr>source := src\<rparr>
      in case check_source e st2 src of
           Some err \<Rightarrow> (st2, ev1 @ [ErrorSignal err])
         | None \<Rightarrow>
             (let st3 = st2\<lparr>cap := Some \<lparr>cap_source = src, is_opened = can_open e src\<rparr>\<rparr> in
              if \<not> can_open e src then (st3, ev1 @ [ErrorSignal (CannotOpenSource src)])
              else (reset_counters (st3\<lparr>frame_height := py_trunc (height_prop e src)\<rparr>), ev1)))"

text \<open>
  What \<^verbatim>\<open>model.track\<close> and the conversion of its boxes, the body of the \<^verbatim>\<open>try\<close> of
  \<^verbatim>\<open>detect_objects\<close>, give on a frame: an exception or the list of detections. The
  network and its tracker are outside the model, so a frame is represented by this answer.
\<close>

datatype track_result = TrackRaises string | Tracks "detection list"

definition detect_objects :: "worker \<Rightarrow> track_result \<Rightarrow> detection list \<times> event list" where
  "detect_objects st tr =
     (case model st of
        None \<Rightarrow> ([], [])
      | Some m \<Rightarrow>
          (case tr of
             TrackRaises msg \<Rightarrow> ([], [ErrorSignal (DetectError msg)])
           | Tracks ds \<Rightarrow> (ds, [])))"

text \<open>
  \<^verbatim>\<open>(y + h) > (self.frame_height - self.params['detect_bottom'])\<close>: the lookup can raise
  KeyError, the subtraction TypeError or OverflowError.
\<close>

definition touches_bottom :: "worker \<Rightarrow> int \<Rightarrow> error + bool" where
  "touches_bottom st bottom =
     (case params st ''detect_bottom'' of
        None \<Rightarrow> Inl (KeyError ''detect_bottom'')
      | Some v \<Rightarrow>
          (case py_sub (frame_height st) v of
             Inl err \<Rightarrow> Inl err
           | Inr line \<Rightarrow> Inr (py_gt bottom line)))"

text \<open>
  The body of the loop of \<^verbatim>\<open>process_frame\<close> for one detection, \<^verbatim>\<open>cur\<close> being
  \<^verbatim>\<open>current_count\<close>: the conversion of the box, the drawing, the test. An exception
  leaves the loop with the state as it is then.
\<close>

definition process_detection ::
  "worker \<Rightarrow> int \<Rightarrow> detection \<Rightarrow> (error + int) \<times> worker \<times> event list" where
  "process_detection st cur d =
     (case d of (b, track_id) \<Rightarrow>
        (case int_box b of
           Inl err \<Rightarrow> (Inl err, st, [])
         | Inr (x, y, w, h) \<Rightarrow>
             (case draw_detection (x, y, w, h) of
                Some err \<Rightarrow> (Inl err, st, [])
              | None \<Rightarrow>
                  (case touches_bottom st (y + h) of
                     Inl err \<Rightarrow> (Inl err, st, [])
                   | Inr low \<Rightarrow>
                       if low \<and> track_id \<noteq> - 1 \<and> track_id \<notin> counted_ids st then
                         (Inr (cur + 1),
                          st\<lparr>counted_ids := insert track_id (counted_ids st)\<rparr>,
                          [CountedLog track_id (total_count st + (cur + 1))])
                       else (Inr cur, st, [])))))"

fun process_loop ::
  "worker \<Rightarrow> detection list \<Rightarrow> int \<Rightarrow> (error + int) \<times> worker \<times> event list" where
  "process_loop st [] cur = (Inr cur, st, [])"
| "process_loop st (d # ds) cur =
     (case process_detection st cur d of
        (Inl err, st1, ev1) \<Rightarrow> (Inl err, st1, ev1)
      | (Inr cur1, st1, ev1) \<Rightarrow>
          (case process_loop st1 ds cur1 of (r, st2, ev2) \<Rightarrow> (r, st2, ev1 @ ev2)))"

definition process_frame ::
  "worker \<Rightarrow> track_result \<Rightarrow> (error + int) \<times> worker \<times> event list" where
  "process_frame st tr =
     (case detect_objects st tr of (results, ev0) \<Rightarrow>
        (case process_loop st results 0 of (r, st1, ev1) \<Rightarrow> (r, st1, ev0 @ ev1)))"

text \<open>What \<^verbatim>\<open>self.cap.read()\<close> returns: no frame, or a frame.\<close>

datatype read_result = NoFrame | Frame track_result

text \<open>
  One pass through the body of \<^verbatim>\<open>while True\<close> in \<^verbatim>\<open>run\<close>, once the wait on the
  condition is over. \<^verbatim>\<open>self.source != 0\<close> holds of every path and of every camera index
  but 0.
\<close>

definition run_iteration :: "worker \<Rightarrow> read_result \<Rightarrow> worker \<times> event list" where
  "run_iteration st r =
     (if pause st \<or> \<not> cap_open st then (st, [])
      else
        (case r of
           NoFrame \<Rightarrow>
             (st, (if source st \<noteq> Camera 0 then [CapRewind] else []) @ [FinishedSignal])
         | Frame tr \<Rightarrow>
             (case process_frame st tr of
                (Inl err, st1, ev1) \<Rightarrow> (st1, ev1 @ [ErrorSignal err])
              | (Inr current_count, st1, ev1) \<Rightarrow>
                  (let st2 = st1\<lparr>total_count := total_count st1 + current_count\<rparr>
                   in (st2, ev1 @ [ChangePixmap, UpdateCount (total_count st2) current_count])))))"

text \<open>
  The loop never ends by itself; it is run here over the answers of the capture to a
  finite number of reads.
\<close>

fun run :: "worker \<Rightarrow> read_result list \<Rightarrow> worker \<times> event list" where
  "run st [] = (st, [])"
| "run st (r # rs) =
     (case run_iteration st r of (st1, ev1) \<Rightarrow>
        (case run st1 rs of (st2, ev2) \<Rightarrow> (st2, ev1 @ ev2)))"


definition update_params :: "worker \<Rightarrow> string \<Rightarrow> pval \<Rightarrow> worker \<times> event list" where
  "update_params st param_name v =
     (case params st param_name of
        None \<Rightarrow> (st, [])
      | Some old \<Rightarrow> (st\<lparr>params := (params st)(param_name \<mapsto> v)\<rparr>, [ParamsUpdated]))"

text \<open>Reading the effects: the identifiers counted and the per-frame counts published.\<close>

fun counted_of :: "event list \<Rightarrow> int list" where
  "counted_of [] = []"
| "counted_of (CountedLog t n # es) = t # counted_of es"
| "counted_of (e # es) = counted_of es"

fun frame_counts :: "event list \<Rightarrow> int list" where
  "frame_counts [] = []"
| "frame_counts (UpdateCount t c # es) = c # frame_counts es"
| "frame_counts (e # es) = frame_counts es"

subsection \<open>A host and a worker to run the methods on\<close>

definition sample_cams :: "int \<rightharpoonup> cam_info" where
  "sample_cams =
     [0 \<mapsto> \<lparr>cam_index = 0, resolution = (800, 600), fps = 30\<rparr>,
      1 \<mapsto> \<lparr>cam_index = 1, resolution = (800, 600), fps = 30\<rparr>]"

definition sample_net :: yolo where
  "sample_net = \<lparr>args = [''imgsz'' \<mapsto> IntV 320], fuse_fails = None\<rparr>"

definition sample_host :: env where
  "sample_host =
     \<lparr>path_exists = (\<lambda>p. p = ''m.pt''),
      can_open = (\<lambda>s. True),
      height_prop = (\<lambda>s. 600),
      yolo_load = (\<lambda>p d. Inr sample_net)\<rparr>"

text \<open>
  The worker once \<^verbatim>\<open>m.pt\<close> is loaded and camera 0, whose frames are 600 high, is set
  as the source (lemma \<open>sample_worker_reachable\<close>).
\<close>

definition sample_worker :: worker where
  "sample_worker =
     (init ''cpu'' sample_cams)
       \<lparr>params := default_params(''model_size'' \<mapsto> IntV 320),
        model := Some sample_net, model_path := ''m.pt'',
        cap := Some \<lparr>cap_source = Camera 0, is_opened = True\<rparr>,
        frame_height := 600\<rparr>"

text \<open>The same tracked box, below the count line, in two frames in a row.\<close>

definition sample_frames :: "read_result list" where
  "sample_frames =
     [Frame (Tracks [((Finite 10, Finite 560, Finite 20, Finite 30), 7)]),
      Frame (Tracks [((Finite 10, Finite 560, Finite 20, Finite 30), 7)])]"

text \<open>A worker with camera 0 open and no model loaded.\<close>

definition no_model_worker :: worker where
  "no_model_worker = fst (set_source sample_host (init ''cpu'' sample_cams) (Camera 0))"

text \<open>A running session on camera 1, as \<^verbatim>\<open>start_video\<close> sets it up.\<close>

definition camera_one_session :: worker where
  "camera_one_session =
     (fst (set_source sample_host sample_worker (Camera 1)))\<lparr>running := True\<rparr>"

text \<open>A worker whose \<^verbatim>\<open>model_size\<close> was set through \<^verbatim>\<open>update_params\<close>.\<close>

definition resized_worker :: worker where
  "resized_worker = fst (update_params (init ''cpu'' sample_cams) ''model_size'' (IntV 1280))"

section \<open>Properties\<close>

subsection \<open>What the loop of process_frame leaves alone\<close>

lemma process_detection_frame:
  "\<exists>ids. fst (snd (process_detection st cur d)) = st\<lparr>counted_ids := ids\<rparr>"
proof -
  have same: "st = st\<lparr>counted_ids := counted_ids st\<rparr>" by simp
  show ?thesis
    unfolding process_detection_def
    by (auto split: prod.splits sum.splits option.splits intro: same)
qed

lemma process_loop_frame:
  "\<exists>ids. fst (snd (process_loop st ds cur)) = st\<lparr>counted_ids := ids\<rparr>"
proof (induction ds arbitrary: st cur)
  case Nil
  show ?case by (simp, rule exI [of _ "counted_ids st"]) simp
next
  case (Cons d ds)
  obtain r0 s0 e0 where d: "process_detection st cur d = (r0, s0, e0)"
    by (cases "process_detection st cur d") auto
  obtain i0 where s0: "s0 = st\<lparr>counted_ids := i0\<rparr>"
    using process_detection_frame [of st cur d] d by auto
  show ?case
  proof (cases r0)
    case (Inl err)
    with d s0 show ?thesis by auto
  next
    case (Inr c)
    obtain r2 s2 e2 where l: "process_loop s0 ds c = (r2, s2, e2)"
      by (cases "process_loop s0 ds c") auto
    obtain i2 where "s2 = s0\<lparr>counted_ids := i2\<rparr>"
      using Cons.IH [of s0 c] l by auto
    with s0 have "s2 = st\<lparr>counted_ids := i2\<rparr>" by simp
    with d Inr l show ?thesis by auto
  qed
qed

lemma process_loop_params:
  "params (fst (snd (process_loop st ds cur))) = params st
   \<and> frame_height (fst (snd (process_loop st ds cur))) = frame_height st
   \<and> total_count (fst (snd (process_loop st ds cur))) = total_count st"
  using process_loop_frame [of st ds cur] by auto

text \<open>
  The loop goes through the list from left to right: on two lists in a row it is the loop
  on the first, then, unless that raised, the loop on the second from the state and the
  count reached.
\<close>

lemma process_loop_append:
  "process_loop st (ds1 @ ds2) cur =
     (case process_loop st ds1 cur of
        (Inl err, st1, ev1) \<Rightarrow> (Inl err, st1, ev1)
      | (Inr c1, st1, ev1) \<Rightarrow>
          (case process_loop st1 ds2 c1 of (r, st2, ev2) \<Rightarrow> (r, st2, ev1 @ ev2)))"
proof (induction ds1 arbitrary: st cur)
  case Nil
  show ?case by (simp split: prod.splits sum.splits)
next
  case (Cons a ds1)
  show ?case
    by (simp add: Cons.IH split: prod.splits sum.splits)
qed

text \<open>The loop on a list that ends in \<open>d\<close> is the loop on the list before it, then the body on \<open>d\<close>.\<close>

lemma process_loop_snoc:
  "process_loop st (ds @ [d]) cur =
     (case process_loop st ds cur of
        (Inl err, st1, ev1) \<Rightarrow> (Inl err, st1, ev1)
      | (Inr c1, st1, ev1) \<Rightarrow>
          (case process_detection st1 c1 d of (r, st2, ev2) \<Rightarrow> (r, st2, ev1 @ ev2)))"
proof (induction ds arbitrary: st cur)
  case Nil
  show ?case by (simp split: prod.splits sum.splits)
next
  case (Cons a ds)
  show ?case
    by (simp add: Cons.IH split: prod.splits sum.splits)
qed

lemma process_frame_frame:
  "\<exists>ids. fst (snd (process_frame st tr)) = st\<lparr>counted_ids := ids\<rparr>"
proof -
  obtain results ev0 where det: "detect_objects st tr = (results, ev0)"
    by (cases "detect_objects st tr") auto
  obtain ids where "fst (snd (process_loop st results 0)) = st\<lparr>counted_ids := ids\<rparr>"
    using process_loop_frame [of st results 0] by auto
  then have "fst (snd (process_frame st tr)) = st\<lparr>counted_ids := ids\<rparr>"
    using det by (cases "process_loop st results 0") (simp add: process_frame_def)
  then show ?thesis by blast
qed

text \<open>The loop of \<^verbatim>\<open>run\<close> writes two fields only: the counted set and the total.\<close>

lemma run_iteration_frame:
  "\<exists>ids n. fst (run_iteration st r) = st\<lparr>counted_ids := ids, total_count := n\<rparr>"
proof -
  have same: "st = st\<lparr>counted_ids := counted_ids st, total_count := total_count st\<rparr>"
    by simp
  show ?thesis
  proof (cases "pause st \<or> \<not> cap_open st")
    case True
    then have "fst (run_iteration st r) = st" by (simp add: run_iteration_def)
    with same show ?thesis by metis
  next
    case active: False
    show ?thesis
    proof (cases r)
      case NoFrame
      with active have "fst (run_iteration st r) = st" by (simp add: run_iteration_def)
      with same show ?thesis by metis
    next
      case (Frame tr)
      obtain r1 s1 e1 where p: "process_frame st tr = (r1, s1, e1)"
        by (cases "process_frame st tr") auto
      obtain ids where s1: "s1 = st\<lparr>counted_ids := ids\<rparr>"
        using process_frame_frame [of st tr] p by auto
      show ?thesis
      proof (cases r1)
        case (Inl err)
        with active Frame p s1
        have "fst (run_iteration st r) = st\<lparr>counted_ids := ids, total_count := total_count st\<rparr>"
          by (simp add: run_iteration_def)
        then show ?thesis by blast
      next
        case (Inr c)
        with active Frame p s1
        have "fst (run_iteration st r) = st\<lparr>counted_ids := ids, total_count := total_count st + c\<rparr>"
          by (simp add: run_iteration_def Let_def)
        then show ?thesis by blast
      qed
    qed
  qed
qed

lemma run_frame:
  "\<exists>ids n. fst (run st rs) = st\<lparr>counted_ids := ids, total_count := n\<rparr>"
proof (induction rs arbitrary: st)
  case Nil
  have "fst (run st []) = st\<lparr>counted_ids := counted_ids st, total_count := total_count st\<rparr>"
    by simp
  then show ?case by blast
next
  case (Cons r rs)
  obtain s0 e0 where i: "run_iteration st r = (s0, e0)"
    by (cases "run_iteration st r") auto
  obtain i0 n0 where s0: "s0 = st\<lparr>counted_ids := i0, total_count := n0\<rparr>"
    using run_iteration_frame [of st r] i by auto
  obtain i2 n2 where "fst (run s0 rs) = s0\<lparr>counted_ids := i2, total_count := n2\<rparr>"
    using Cons.IH [of s0] by auto
  with s0 i have "fst (run st (r # rs)) = st\<lparr>counted_ids := i2, total_count := n2\<rparr>"
    by (cases "run s0 rs") simp
  then show ?case by blast
qed

text \<open>A run over two lists of reads is the run over the first, then over the second.\<close>

lemma run_append:
  "run st (rs1 @ rs2) =
     (case run st rs1 of (st1, ev1) \<Rightarrow>
        (case run st1 rs2 of (st2, ev2) \<Rightarrow> (st2, ev1 @ ev2)))"
proof (induction rs1 arbitrary: st)
  case Nil
  show ?case by (simp split: prod.splits)
next
  case (Cons r rs1)
  show ?case by (simp add: Cons.IH split: prod.splits)
qed

subsection \<open>The sample worker\<close>

lemma sample_worker_reachable:
  "fst (set_source sample_host
          (fst (load_model sample_host (init ''cpu'' sample_cams) ''m.pt'')) (Camera 0))
   = sample_worker"
  by (simp add: set_source_def load_model_def init_def sample_worker_def sample_host_def
      free_model_def release_cap_def check_source_def sample_cams_def endswith_def str_lower_def
      lower_char_def reset_counters_def py_trunc_def sample_net_def imgsz_of_def Let_def)

text \<open>
  The scenario of the specification: count line at 580, a box with bottom edge 590 and
  identifier 7 in two frames in a row. The first frame counts it, the second does not.
\<close>

lemma run_sample_frames:
  "run sample_worker sample_frames =
     (sample_worker\<lparr>counted_ids := {7}, total_count := 1\<rparr>,
      [CountedLog 7 1, ChangePixmap, UpdateCount 1 1, ChangePixmap, UpdateCount 1 0])"
  by (simp add: sample_frames_def run_iteration_def process_frame_def detect_objects_def
      process_detection_def int_box_def py_trunc_def draw_detection_def fits_c_int_def
      touches_bottom_def cap_open_def
      sample_worker_def init_def default_params_def sample_net_def Let_def)

subsection \<open>The counting rule\<close>

text \<open>
  C1, as the specification states it, with the count line inclusive, fails: with a frame
  height of 600 and \<^verbatim>\<open>detect_bottom\<close> = 20 the count line is 580, and a tracked box
  with y = 560 and h = 20, whose bottom edge is exactly 580 and whose identifier 7 has not
  been counted, leaves the per-frame count at 0 and the counted set as it was.
\<close>

theorem boundary_not_counted:
  "process_frame sample_worker (Tracks [((Finite 10, Finite 560, Finite 20, Finite 20), 7)])
     = (Inr 0, sample_worker, [])
   \<and> (7::int) \<noteq> - 1
   \<and> 7 \<notin> counted_ids sample_worker
   \<and> params sample_worker ''detect_bottom'' = Some (IntV 20)
   \<and> (560::int) + 20 = frame_height sample_worker - 20"
  by (simp add: process_frame_def detect_objects_def process_detection_def int_box_def
      py_trunc_def draw_detection_def fits_c_int_def touches_bottom_def sample_worker_def
      init_def default_params_def)

text \<open>
  The test on an int offset is the comparison of integers; on a float offset it is made
  on the rounded difference: with a frame height of 600 and an offset of 2^-60 the
  difference rounds to 600, so a bottom edge of 600 is not below the line.
\<close>

lemma touches_bottom_int:
  assumes "params st ''detect_bottom'' = Some (IntV d)"
  shows "touches_bottom st bottom = Inr (frame_height st - d < bottom)"
  using assms by (simp add: touches_bottom_def)

text \<open>Rounding, once the binade of the argument is known.\<close>

lemma round_double_in_binade:
  assumes "x \<noteq> 0"
      and "\<lfloor>log 2 \<bar>x\<bar>\<rfloor> = e"
      and "- 1022 \<le> e"
      and "round_even (x / 2 powr of_int (e - 52)) = n"
      and "\<bar>of_int n * 2 powr of_int (e - 52)\<bar> < (2::real) ^ 1024"
  shows "round_double x = Finite (of_int n * 2 powr of_int (e - 52))"
  using assms unfolding round_double_def Let_def by (simp add: max_def)

lemma floor_log2_binade:
  assumes "2 ^ k \<le> x" and "x < 2 ^ Suc k"
  shows "\<lfloor>log 2 \<bar>x\<bar>\<rfloor> = int k"
proof -
  have "(0::real) < 2 ^ k" by simp
  with assms(1) have pos: "0 < x" by linarith
  have "real k \<le> log 2 x"
    using assms(1) pos le_log_iff [of 2 x "real k"] by (simp add: powr_realpow)
  moreover have "log 2 x < real k + 1"
    using assms(2) pos log_less_iff [of 2 x "real k + 1"]
    by (simp add: powr_realpow powr_add)
  ultimately have "\<lfloor>log 2 x\<rfloor> = int k" by linarith
  with pos show ?thesis by simp
qed

lemma round_double_600_less: "round_double (600 - 1 / 2 ^ 60) = Finite 600"
proof -
  define x :: real where "x = 600 - 1 / 2 ^ 60"
  define e :: int where "e = 9"
  define n :: int where "n = 600 * 2 ^ 43"
  have x0: "x \<noteq> 0" by (simp add: x_def)
  have fl: "\<lfloor>log 2 \<bar>x\<bar>\<rfloor> = e"
    unfolding e_def x_def using floor_log2_binade [of 9 "600 - 1 / 2 ^ 60"] by simp
  have e: "- 1022 \<le> e" by (simp add: e_def)
  have q: "(2::real) powr of_int (e - 52) = 1 / 2 ^ 43"
    by (simp add: e_def powr_minus_divide powr_realpow)
  have xq: "x / (2 powr of_int (e - 52)) = of_int n - 1 / 2 ^ 17"
    unfolding q x_def n_def by simp
  have f: "\<lfloor>of_int n - 1 / 2 ^ 17 :: real\<rfloor> = n - 1"
    by (rule floor_unique) simp_all
  have r: "round_even (x / 2 powr of_int (e - 52)) = n"
    unfolding xq round_even_def Let_def f by simp
  have y: "of_int n * (2::real) powr of_int (e - 52) = 600"
    unfolding q n_def by simp
  have b: "\<bar>of_int n * (2::real) powr of_int (e - 52)\<bar> < 2 ^ 1024"
    unfolding y by simp
  have "round_double x = Finite (of_int n * 2 powr of_int (e - 52))"
    using round_double_in_binade [OF x0 fl e r b] .
  then show ?thesis unfolding y x_def .
qed

lemma round_double_600: "round_double 600 = Finite 600"
proof -
  define e :: int where "e = 9"
  define n :: int where "n = 600 * 2 ^ 43"
  have fl: "\<lfloor>log 2 \<bar>600 :: real\<bar>\<rfloor> = e"
    unfolding e_def using floor_log2_binade [of 9 600] by simp
  have e: "- 1022 \<le> e" by (simp add: e_def)
  have q: "(2::real) powr of_int (e - 52) = 1 / 2 ^ 43"
    by (simp add: e_def powr_minus_divide powr_realpow)
  have xq: "600 / (2 powr of_int (e - 52)) = (of_int n :: real)"
    unfolding q n_def by simp
  have r: "round_even (600 / 2 powr of_int (e - 52)) = n"
    unfolding xq round_even_def Let_def by simp
  have y: "of_int n * (2::real) powr of_int (e - 52) = 600"
    unfolding q n_def by simp
  have b: "\<bar>of_int n * (2::real) powr of_int (e - 52)\<bar> < 2 ^ 1024"
    unfolding y by simp
  have "round_double 600 = Finite (of_int n * 2 powr of_int (e - 52))"
    using round_double_in_binade [OF _ fl e r b] by simp
  then show ?thesis unfolding y .
qed

lemma touches_bottom_float_rounds:
  assumes "params st ''detect_bottom'' = Some (FloatV (Finite (1 / 2 ^ 60)))"
      and "frame_height st = 600"
  shows "touches_bottom st 600 = Inr False"
proof -
  have f: "py_float 600 = Inr 600"
    by (simp add: py_float_def round_double_600)
  show ?thesis
    using assms f round_double_600_less by (simp add: touches_bottom_def)
qed

text \<open>
  Drawing comes before the test: a box whose height does not fit a C int raises there, and
  nothing is counted.
\<close>

lemma process_detection_draw_raises:
  "process_detection st cur ((Finite 10, Finite 512, Finite 20, Finite 3000000000), 7)
     = (Inl DrawError, st, [])"
  by (simp add: process_detection_def int_box_def py_trunc_def draw_detection_def
      fits_c_int_def)

text \<open>
  C1, amended: when the loop of \<^verbatim>\<open>process_frame\<close> reaches a detection (the detections
  before it raised nothing, its box converts to the integers x, y, w, h, drawing it
  raises nothing, and frame_height - \<^verbatim>\<open>detect_bottom\<close> evaluates to a number), the
  detection increments the per-frame count and its identifier is added to the counted set
  if and only if the identifier is not -1, the bottom edge y + h is strictly greater than
  that number, and the identifier is not yet in the counted set; otherwise count and set
  stay as they are. A detection with identifier -1 is therefore never counted, wherever
  it is. The number is the exact difference when the offset is an int, the rounded
  double when it is a float.
\<close>

theorem process_loop_counts_iff:
  assumes "process_loop st ds cur = (Inr c1, st1, ev1)"
      and "int_box b = Inr (x, y, w, h)"
      and "draw_detection (x, y, w, h) = None"
      and "params st ''detect_bottom'' = Some v"
      and "py_sub (frame_height st) v = Inr line"
  shows "process_loop st (ds @ [(b, track_id)]) cur =
     (if track_id \<noteq> - 1 \<and> py_gt (y + h) line \<and> track_id \<notin> counted_ids st1
      then (Inr (c1 + 1), st1\<lparr>counted_ids := insert track_id (counted_ids st1)\<rparr>,
            ev1 @ [CountedLog track_id (total_count st + (c1 + 1))])
      else (Inr c1, st1, ev1))"
proof -
  have same: "params st1 = params st" "frame_height st1 = frame_height st"
    "total_count st1 = total_count st"
    using process_loop_params [of st ds cur] assms(1) by simp_all
  have low: "touches_bottom st1 (y + h) = Inr (py_gt (y + h) line)"
    using assms(4,5) same by (simp add: touches_bottom_def)
  show ?thesis
    using assms(1,2,3) low same
    by (simp add: process_loop_snoc process_detection_def)
qed

theorem process_loop_counts_iff_witness:
  "process_loop sample_worker ([] @ [((Finite 10, Finite 560, Finite 20, Finite 30), 7)]) 0 =
     (Inr 1, sample_worker\<lparr>counted_ids := {7}\<rparr>, [CountedLog 7 1])
   \<and> py_sub (frame_height sample_worker) (IntV 20) = Inr (PInt 580)
   \<and> py_gt (560 + 30) (PInt 580)"
proof -
  have a1: "process_loop sample_worker [] 0 = (Inr 0, sample_worker, [])" by simp
  have a2: "int_box (Finite 10, Finite 560, Finite 20, Finite 30) = Inr (10, 560, 20, 30)"
    by (simp add: int_box_def py_trunc_def)
  have a3: "draw_detection (10, 560, 20, 30) = None"
    by (simp add: draw_detection_def fits_c_int_def)
  have a4: "params sample_worker ''detect_bottom'' = Some (IntV 20)"
    by (simp add: sample_worker_def init_def default_params_def)
  have f: "frame_height sample_worker = 600" "counted_ids sample_worker = {}"
    "total_count sample_worker = 0"
    by (simp_all add: sample_worker_def init_def)
  have a5: "py_sub (frame_height sample_worker) (IntV 20) = Inr (PInt 580)"
    using f by simp
  show ?thesis
    using process_loop_counts_iff [OF a1 a2 a3 a4 a5, of 7] f a5 by simp
qed

subsection \<open>The counted set and the counts over a session\<close>

lemma counted_of_append: "counted_of (a @ b) = counted_of a @ counted_of b"
  by (induction a rule: counted_of.induct) simp_all

lemma frame_counts_append: "frame_counts (a @ b) = frame_counts a @ frame_counts b"
  by (induction a rule: frame_counts.induct) simp_all

lemma process_detection_log:
  assumes "process_detection st cur d = (r, st1, ev)"
  shows "counted_ids st1 = counted_ids st \<union> set (counted_of ev)
       \<and> distinct (counted_of ev)
       \<and> set (counted_of ev) \<inter> counted_ids st = {}
       \<and> - 1 \<notin> set (counted_of ev)
       \<and> frame_counts ev = []
       \<and> (\<forall>c. r = Inr c \<longrightarrow> c = cur + int (length (counted_of ev)))"
  using assms unfolding process_detection_def
  by (auto split: prod.splits sum.splits option.splits if_splits)

lemma log_compose:
  assumes "B = A \<union> set xs" "distinct xs" "set xs \<inter> A = {}"
      and "C = B \<union> set ys" "distinct ys" "set ys \<inter> B = {}"
  shows "C = A \<union> set (xs @ ys) \<and> distinct (xs @ ys) \<and> set (xs @ ys) \<inter> A = {}"
proof (intro conjI)
  show "C = A \<union> set (xs @ ys)" using assms(1,4) by auto
  show "distinct (xs @ ys)" using assms(1,2,5,6) by auto
  show "set (xs @ ys) \<inter> A = {}" using assms(1,3,6) by auto
qed

lemma process_loop_log:
  assumes "process_loop st ds cur = (r, st1, ev)"
  shows "counted_ids st1 = counted_ids st \<union> set (counted_of ev)
       \<and> distinct (counted_of ev)
       \<and> set (counted_of ev) \<inter> counted_ids st = {}
       \<and> - 1 \<notin> set (counted_of ev)
       \<and> frame_counts ev = []
       \<and> (\<forall>c. r = Inr c \<longrightarrow> c = cur + int (length (counted_of ev)))"
  using assms
proof (induction ds arbitrary: st cur r st1 ev)
  case Nil
  then show ?case by auto
next
  case (Cons d ds)
  obtain r0 s0 e0 where d: "process_detection st cur d = (r0, s0, e0)"
    by (cases "process_detection st cur d") auto
  note d0 = process_detection_log [OF d]
  show ?case
  proof (cases r0)
    case (Inl err)
    with Cons.prems d have "r = Inl err" "st1 = s0" "ev = e0" by simp_all
    with d0 show ?thesis by simp
  next
    case (Inr c)
    obtain r2 s2 e2 where l: "process_loop s0 ds c = (r2, s2, e2)"
      by (cases "process_loop s0 ds c") auto
    note l0 = Cons.IH [OF l]
    from Cons.prems d Inr l have eq: "r = r2" "st1 = s2" "ev = e0 @ e2" by simp_all
    have c: "c = cur + int (length (counted_of e0))" using d0 Inr by simp
    have d1: "counted_ids s0 = counted_ids st \<union> set (counted_of e0)"
      and d2: "distinct (counted_of e0)"
      and d3: "set (counted_of e0) \<inter> counted_ids st = {}"
      and d4: "- 1 \<notin> set (counted_of e0)"
      and d5: "frame_counts e0 = []"
      using d0 by blast+
    have l1: "counted_ids s2 = counted_ids s0 \<union> set (counted_of e2)"
      and l2: "distinct (counted_of e2)"
      and l3: "set (counted_of e2) \<inter> counted_ids s0 = {}"
      and l4: "- 1 \<notin> set (counted_of e2)"
      and l5: "frame_counts e2 = []"
      and l6: "\<forall>c'. r2 = Inr c' \<longrightarrow> c' = c + int (length (counted_of e2))"
      using l0 by blast+
    note comp = log_compose [OF d1 d2 d3 l1 l2 l3]
    show ?thesis
      unfolding eq counted_of_append frame_counts_append
    proof (intro conjI)
      show "counted_ids s2 = counted_ids st \<union> set (counted_of e0 @ counted_of e2)"
        using comp by blast
      show "distinct (counted_of e0 @ counted_of e2)" using comp by blast
      show "set (counted_of e0 @ counted_of e2) \<inter> counted_ids st = {}" using comp by blast
      show "- 1 \<notin> set (counted_of e0 @ counted_of e2)" using d4 l4 by simp
      show "frame_counts e0 @ frame_counts e2 = []" using d5 l5 by simp
      show "\<forall>c'. r2 = Inr c' \<longrightarrow> c' = cur + int (length (counted_of e0 @ counted_of e2))"
        using l6 c by auto
    qed
  qed
qed

lemma process_frame_log:
  assumes "process_frame st tr = (r, st1, ev)"
  shows "counted_ids st1 = counted_ids st \<union> set (counted_of ev)
       \<and> distinct (counted_of ev)
       \<and> set (counted_of ev) \<inter> counted_ids st = {}
       \<and> - 1 \<notin> set (counted_of ev)
       \<and> frame_counts ev = []
       \<and> (\<forall>c. r = Inr c \<longrightarrow> c = int (length (counted_of ev)))
       \<and> total_count st1 = total_count st"
proof -
  obtain results ev0 where det: "detect_objects st tr = (results, ev0)"
    by (cases "detect_objects st tr") auto
  have ev0: "counted_of ev0 = []" "frame_counts ev0 = []"
    using det by (auto simp add: detect_objects_def split: option.splits track_result.splits)
  obtain r1 s1 e1 where l: "process_loop st results 0 = (r1, s1, e1)"
    by (cases "process_loop st results 0") auto
  from assms det l have eq: "r = r1" "st1 = s1" "ev = ev0 @ e1"
    by (simp_all add: process_frame_def)
  have tot: "total_count s1 = total_count st"
    using process_loop_params [of st results 0] l by simp
  show ?thesis
    unfolding eq counted_of_append frame_counts_append ev0
    using process_loop_log [OF l] tot by simp
qed

lemma run_iteration_log:
  assumes "run_iteration st r = (st1, ev)"
  shows "counted_ids st1 = counted_ids st \<union> set (counted_of ev)
       \<and> distinct (counted_of ev)
       \<and> set (counted_of ev) \<inter> counted_ids st = {}
       \<and> - 1 \<notin> set (counted_of ev)
       \<and> total_count st1 = total_count st + sum_list (frame_counts ev)
       \<and> (\<forall>c \<in> set (frame_counts ev). 0 \<le> c)
       \<and> sum_list (frame_counts ev) \<le> int (length (counted_of ev))"
proof (cases "pause st \<or> \<not> cap_open st")
  case True
  with assms have "st1 = st" "ev = []" by (simp_all add: run_iteration_def)
  then show ?thesis by simp
next
  case active: False
  show ?thesis
  proof (cases r)
    case NoFrame
    with assms active have "st1 = st"
      "ev = [CapRewind, FinishedSignal] \<or> ev = [FinishedSignal]"
      by (cases "source st = Camera 0"; simp add: run_iteration_def)+
    then show ?thesis by auto
  next
    case (Frame tr)
    obtain r1 s1 e1 where p: "process_frame st tr = (r1, s1, e1)"
      by (cases "process_frame st tr") auto
    note p0 = process_frame_log [OF p]
    show ?thesis
    proof (cases r1)
      case (Inl err)
      with assms active Frame p have "st1 = s1" "ev = e1 @ [ErrorSignal err]"
        by (simp_all add: run_iteration_def)
      with p0 show ?thesis by (simp add: counted_of_append frame_counts_append)
    next
      case (Inr c)
      with assms active Frame p
      have "st1 = s1\<lparr>total_count := total_count s1 + c\<rparr>"
        "ev = e1 @ [ChangePixmap, UpdateCount (total_count s1 + c) c]"
        by (simp_all add: run_iteration_def Let_def)
      with p0 Inr show ?thesis by (simp add: counted_of_append frame_counts_append)
    qed
  qed
qed

lemma run_log:
  assumes "run st rs = (st1, ev)"
  shows "counted_ids st1 = counted_ids st \<union> set (counted_of ev)
       \<and> distinct (counted_of ev)
       \<and> set (counted_of ev) \<inter> counted_ids st = {}
       \<and> - 1 \<notin> set (counted_of ev)
       \<and> total_count st1 = total_count st + sum_list (frame_counts ev)
       \<and> (\<forall>c \<in> set (frame_counts ev). 0 \<le> c)
       \<and> sum_list (frame_counts ev) \<le> int (length (counted_of ev))"
  using assms
proof (induction rs arbitrary: st st1 ev)
  case Nil
  then show ?case by auto
next
  case (Cons r rs)
  obtain s0 e0 where i: "run_iteration st r = (s0, e0)"
    by (cases "run_iteration st r") auto
  obtain s2 e2 where l: "run s0 rs = (s2, e2)"
    by (cases "run s0 rs") auto
  from Cons.prems i l have eq: "st1 = s2" "ev = e0 @ e2" by simp_all
  have i1: "counted_ids s0 = counted_ids st \<union> set (counted_of e0)"
    and i2: "distinct (counted_of e0)"
    and i3: "set (counted_of e0) \<inter> counted_ids st = {}"
    and i4: "- 1 \<notin> set (counted_of e0)"
    and i5: "total_count s0 = total_count st + sum_list (frame_counts e0)"
    and i6: "\<forall>c \<in> set (frame_counts e0). 0 \<le> c"
    and i7: "sum_list (frame_counts e0) \<le> int (length (counted_of e0))"
    using run_iteration_log [OF i] by blast+
  have l1: "counted_ids s2 = counted_ids s0 \<union> set (counted_of e2)"
    and l2: "distinct (counted_of e2)"
    and l3: "set (counted_of e2) \<inter> counted_ids s0 = {}"
    and l4: "- 1 \<notin> set (counted_of e2)"
    and l5: "total_count s2 = total_count s0 + sum_list (frame_counts e2)"
    and l6: "\<forall>c \<in> set (frame_counts e2). 0 \<le> c"
    and l7: "sum_list (frame_counts e2) \<le> int (length (counted_of e2))"
    using Cons.IH [OF l] by blast+
  note comp = log_compose [OF i1 i2 i3 l1 l2 l3]
  show ?case
    unfolding eq counted_of_append frame_counts_append
  proof (intro conjI)
    show "counted_ids s2 = counted_ids st \<union> set (counted_of e0 @ counted_of e2)"
      using comp by blast
    show "distinct (counted_of e0 @ counted_of e2)" using comp by blast
    show "set (counted_of e0 @ counted_of e2) \<inter> counted_ids st = {}" using comp by blast
    show "- 1 \<notin> set (counted_of e0 @ counted_of e2)" using i4 l4 by simp
    show "total_count s2 = total_count st + sum_list (frame_counts e0 @ frame_counts e2)"
      using i5 l5 by simp
    show "\<forall>c \<in> set (frame_counts e0 @ frame_counts e2). 0 \<le> c"
      using i6 l6 by auto
    show "sum_list (frame_counts e0 @ frame_counts e2)
            \<le> int (length (counted_of e0 @ counted_of e2))"
      using i7 l7 by simp
  qed
qed

text \<open>
  C3: over any sequence of reads processed by the loop with no reset in between, the
  identifiers added to the counted set (the log of the additions) are pairwise distinct,
  none of them was in the set when the sequence began and none is -1; the set afterwards
  is the set before together with the identifiers added, so nothing leaves it; and the
  per-frame counts published add up to no more than the number of additions, so an
  identifier that is already counted does not increment a count again.
\<close>

theorem counted_once_per_session:
  assumes "run st rs = (st1, ev)"
  shows "counted_ids st1 = counted_ids st \<union> set (counted_of ev)
       \<and> distinct (counted_of ev)
       \<and> set (counted_of ev) \<inter> counted_ids st = {}
       \<and> - 1 \<notin> set (counted_of ev)
       \<and> sum_list (frame_counts ev) \<le> int (length (counted_of ev))"
  using run_log [OF assms] by blast

theorem counted_once_per_session_witness:
  "run sample_worker sample_frames =
     (sample_worker\<lparr>counted_ids := {7}, total_count := 1\<rparr>,
      [CountedLog 7 1, ChangePixmap, UpdateCount 1 1, ChangePixmap, UpdateCount 1 0])
   \<and> counted_ids (sample_worker\<lparr>counted_ids := {7}, total_count := 1\<rparr>)
       = counted_ids sample_worker \<union> {7}
   \<and> counted_of [CountedLog 7 1, ChangePixmap, UpdateCount 1 1, ChangePixmap, UpdateCount 1 0]
       = [7]"
  using counted_once_per_session [OF run_sample_frames] run_sample_frames by simp

text \<open>
  C4: over any sequence of reads processed by the loop with no reset in between, the
  cumulative count afterwards is the cumulative count before plus the sum of the
  per-frame counts published; every per-frame count is non-negative; and the cumulative
  count after any prefix of the sequence is at most the cumulative count after the whole
  sequence.
\<close>

theorem total_is_sum_of_frame_counts:
  assumes "run st rs = (st1, ev)"
  shows "total_count st1 = total_count st + sum_list (frame_counts ev)
       \<and> (\<forall>c \<in> set (frame_counts ev). 0 \<le> c)
       \<and> (\<forall>k. total_count (fst (run st (take k rs))) \<le> total_count st1)"
proof -
  have mono: "total_count (fst (run st (take k rs))) \<le> total_count st1" for k
  proof -
    obtain sa ea where a: "run st (take k rs) = (sa, ea)"
      by (cases "run st (take k rs)") auto
    obtain sb eb where b: "run sa (drop k rs) = (sb, eb)"
      by (cases "run sa (drop k rs)") auto
    have "run st rs = (sb, ea @ eb)"
      using run_append [of st "take k rs" "drop k rs"] a b by simp
    with assms have sb: "sb = st1" by simp
    have "total_count sb = total_count sa + sum_list (frame_counts eb)"
      and "\<forall>c \<in> set (frame_counts eb). 0 \<le> c"
      using run_log [OF b] by blast+
    then have "total_count sa \<le> total_count sb"
      by (simp add: sum_list_nonneg)
    with a sb show ?thesis by simp
  qed
  show ?thesis
    using run_log [OF assms] mono by blast
qed

theorem total_is_sum_of_frame_counts_witness:
  "run sample_worker sample_frames =
     (sample_worker\<lparr>counted_ids := {7}, total_count := 1\<rparr>,
      [CountedLog 7 1, ChangePixmap, UpdateCount 1 1, ChangePixmap, UpdateCount 1 0])
   \<and> frame_counts [CountedLog 7 1, ChangePixmap, UpdateCount 1 1, ChangePixmap, UpdateCount 1 0]
       = [1, 0]
   \<and> total_count (sample_worker\<lparr>counted_ids := {7}, total_count := 1\<rparr>)
       = total_count sample_worker + sum_list [1, 0]"
  using total_is_sum_of_frame_counts [OF run_sample_frames] run_sample_frames by simp

text \<open>
  C6: a run that starts from \<^verbatim>\<open>reset_counters\<close>, followed by \<^verbatim>\<open>reset_counters\<close> and the
  same sequence of reads with the same detections, gives the same effects, among them
  the same per-frame and cumulative counts published, and ends in the same state, with
  the same cumulative count.
\<close>

theorem replay_after_reset:
  "run (reset_counters (fst (run (reset_counters st) rs))) rs = run (reset_counters st) rs"
proof -
  obtain ids n where
    "fst (run (reset_counters st) rs) = (reset_counters st)\<lparr>counted_ids := ids, total_count := n\<rparr>"
    using run_frame [of "reset_counters st" rs] by auto
  then have "reset_counters (fst (run (reset_counters st) rs)) = reset_counters st"
    by (simp add: reset_counters_def)
  then show ?thesis by simp
qed

subsection \<open>Setting the source\<close>

lemma release_cap_result:
  "release_cap st =
     (st\<lparr>cap := map_option (\<lambda>c. c\<lparr>is_opened := False\<rparr>) (cap st)\<rparr>,
      if cap_open st then [CapRelease] else [])"
proof (cases "cap st")
  case None
  then have "st\<lparr>cap := None\<rparr> = st" by (cases st) simp
  with None show ?thesis by (simp add: release_cap_def cap_open_def)
next
  case (Some c)
  show ?thesis
  proof (cases "is_opened c")
    case True
    with Some show ?thesis by (simp add: release_cap_def cap_open_def)
  next
    case False
    then have "c\<lparr>is_opened := False\<rparr> = c" by (cases c) simp
    with Some have "st\<lparr>cap := Some (c\<lparr>is_opened := False\<rparr>)\<rparr> = st" by (cases st) simp
    with Some False show ?thesis by (simp add: release_cap_def cap_open_def)
  qed
qed

text \<open>
  C2, as the specification states it, fails: on the sample worker, whose capture on
  camera 0 is open, \<^verbatim>\<open>set_source\<close> with camera 5, which was not probed, reports the
  error, but has released the capture and stored 5 as the source before.
\<close>

theorem set_source_bad_camera_releases:
  "available_cameras sample_worker 5 = None
   \<and> cap_open sample_worker
   \<and> source sample_worker = Camera 0
   \<and> \<not> cap_open (fst (set_source sample_host sample_worker (Camera 5)))
   \<and> source (fst (set_source sample_host sample_worker (Camera 5))) = Camera 5
   \<and> snd (set_source sample_host sample_worker (Camera 5)) =
       [CapRelease, ErrorSignal (CameraUnavailable 5)]"
  by (simp add: set_source_def release_cap_def check_source_def cap_open_def
      sample_worker_def init_def sample_cams_def)

text \<open>
  C2, amended: \<^verbatim>\<open>set_source\<close> with a camera index that was not probed reports the
  failure through the error signal and opens nothing. It leaves the counting session
  (the cumulative count, the counted set, the frame height) and every other field but
  two as they were: the capture that was open is released, and the source stored is the
  index that was refused.
\<close>

theorem set_source_unknown_camera:
  assumes "available_cameras st i = None"
  shows "set_source e st (Camera i) =
           (st\<lparr>cap := map_option (\<lambda>c. c\<lparr>is_opened := False\<rparr>) (cap st), source := Camera i\<rparr>,
            (if cap_open st then [CapRelease] else []) @ [ErrorSignal (CameraUnavailable i)])
       \<and> \<not> cap_open (fst (set_source e st (Camera i)))
       \<and> source (fst (set_source e st (Camera i))) = Camera i
       \<and> total_count (fst (set_source e st (Camera i))) = total_count st
       \<and> counted_ids (fst (set_source e st (Camera i))) = counted_ids st
       \<and> frame_height (fst (set_source e st (Camera i))) = frame_height st"
proof -
  have eq: "set_source e st (Camera i) =
           (st\<lparr>cap := map_option (\<lambda>c. c\<lparr>is_opened := False\<rparr>) (cap st), source := Camera i\<rparr>,
            (if cap_open st then [CapRelease] else []) @ [ErrorSignal (CameraUnavailable i)])"
    using assms by (simp add: set_source_def release_cap_result check_source_def)
  have closed: "\<not> cap_open (st\<lparr>cap := map_option (\<lambda>c. c\<lparr>is_opened := False\<rparr>) (cap st),
                              source := Camera i\<rparr>)"
    by (cases "cap st") (simp_all add: cap_open_def)
  show ?thesis
    unfolding eq using closed by simp
qed

theorem set_source_unknown_camera_witness:
  "available_cameras sample_worker 5 = None
   \<and> set_source sample_host sample_worker (Camera 5) =
       (sample_worker\<lparr>cap := Some \<lparr>cap_source = Camera 0, is_opened = False\<rparr>,
                       source := Camera 5\<rparr>,
        [CapRelease, ErrorSignal (CameraUnavailable 5)])
   \<and> total_count (fst (set_source sample_host sample_worker (Camera 5))) = 0
   \<and> counted_ids (fst (set_source sample_host sample_worker (Camera 5))) = {}
   \<and> frame_height (fst (set_source sample_host sample_worker (Camera 5))) = 600"
proof -
  have a: "available_cameras sample_worker 5 = None"
    by (simp add: sample_worker_def init_def sample_cams_def)
  have c: "cap sample_worker = Some \<lparr>cap_source = Camera 0, is_opened = True\<rparr>"
    "total_count sample_worker = 0" "counted_ids sample_worker = {}"
    "frame_height sample_worker = 600"
    by (simp_all add: sample_worker_def init_def)
  show ?thesis
    using a c set_source_unknown_camera [OF a, of sample_host]
    by (simp add: cap_open_def)
qed

subsection \<open>The end of the stream\<close>

text \<open>
  When the read gives no frame the loop emits the finished signal, rewinds first unless
  the source is camera 0, and goes on with the next read.
\<close>

lemma run_no_frame_continues:
  assumes "\<not> pause st" and "cap_open st"
  shows "run st (NoFrame # rs) =
           (fst (run st rs),
            (if source st \<noteq> Camera 0 then [CapRewind] else []) @ [FinishedSignal]
              @ snd (run st rs))"
  using assms by (cases "run st rs") (simp add: run_iteration_def)

text \<open>
  C5 does not hold of the code: in a running session on camera 1, a camera that was
  probed, a read that gives no frame rewinds the capture. The test of \<^verbatim>\<open>run\<close> is
  \<^verbatim>\<open>self.source != 0\<close>, which is true of every camera but the first, where
  \<^verbatim>\<open>set_source\<close> tells a camera from a file by \<^verbatim>\<open>isinstance(source, int)\<close>. The
  finished signal is emitted and the loop goes on, as the claim says.
\<close>

theorem camera_one_rewinds:
  "source camera_one_session = Camera 1
   \<and> cap camera_one_session = Some \<lparr>cap_source = Camera 1, is_opened = True\<rparr>
   \<and> run_iteration camera_one_session NoFrame =
       (camera_one_session, [CapRewind, FinishedSignal])"
proof -
  have s: "source camera_one_session = Camera 1"
    and c: "cap camera_one_session = Some \<lparr>cap_source = Camera 1, is_opened = True\<rparr>"
    and p: "\<not> pause camera_one_session"
    by (simp_all add: camera_one_session_def set_source_def release_cap_def check_source_def
        sample_worker_def init_def sample_cams_def sample_host_def reset_counters_def Let_def)
  show ?thesis
    using s c p by (simp add: run_iteration_def cap_open_def)
qed

subsection \<open>The parameters\<close>

text \<open>The keys of the dictionary are the ten the constructor gives it.\<close>

lemma dom_default_params:
  "dom default_params =
     {''track_dist'', ''detect_bottom'', ''min_area'', ''max_area'', ''model_conf'',
      ''model_nms'', ''model_size'', ''track_enabled'', ''track_buffer'', ''track_min_hits''}"
  by (auto simp add: default_params_def)

lemma update_params_dom:
  "dom (params (fst (update_params st param_name v))) = dom (params st)"
  by (auto simp add: update_params_def split: option.splits)

text \<open>
  C7: \<^verbatim>\<open>update_params\<close> with a name that is a key of the dictionary stores the value
  under that key and emits the signal of the update; with any other name it returns the
  state as it was, emits nothing and reports no error.
\<close>

theorem update_params_known_only:
  "update_params st param_name v =
     (if param_name \<in> dom (params st)
      then (st\<lparr>params := (params st)(param_name \<mapsto> v)\<rparr>, [ParamsUpdated])
      else (st, []))"
  by (auto simp add: update_params_def split: option.splits)

subsection \<open>Frames without a model\<close>

text \<open>
  C9: with no model loaded, \<^verbatim>\<open>detect_objects\<close> returns the empty list and emits no
  error, \<^verbatim>\<open>process_frame\<close> returns the count 0 and leaves the state as it was, and no
  pass through the loop of \<^verbatim>\<open>run\<close> emits the error signal, whatever the read gives.
\<close>

theorem no_model_no_detections:
  assumes "model st = None"
  shows "detect_objects st tr = ([], [])
       \<and> process_frame st tr = (Inr 0, st, [])
       \<and> (\<forall>err. ErrorSignal err \<notin> set (snd (run_iteration st r)))"
proof -
  have d: "detect_objects st tr = ([], [])" for tr
    using assms by (simp add: detect_objects_def)
  have p: "process_frame st tr = (Inr 0, st, [])" for tr
    by (simp add: process_frame_def d)
  have "ErrorSignal err \<notin> set (snd (run_iteration st r))" for err
    by (cases r) (simp_all add: run_iteration_def p)
  with d p show ?thesis by blast
qed

theorem no_model_no_detections_witness:
  "model no_model_worker = None
   \<and> cap_open no_model_worker
   \<and> detect_objects no_model_worker
        (Tracks [((Finite 10, Finite 560, Finite 20, Finite 30), 7)]) = ([], [])
   \<and> process_frame no_model_worker
        (Tracks [((Finite 10, Finite 560, Finite 20, Finite 30), 7)])
       = (Inr 0, no_model_worker, [])
   \<and> snd (run_iteration no_model_worker
        (Frame (Tracks [((Finite 10, Finite 560, Finite 20, Finite 30), 7)])))
       = [ChangePixmap, UpdateCount 0 0]"
proof -
  have m: "model no_model_worker = None"
    and c: "cap_open no_model_worker"
    and p: "\<not> pause no_model_worker"
    and t: "total_count no_model_worker = 0"
    by (simp_all add: no_model_worker_def set_source_def release_cap_def check_source_def
        init_def sample_cams_def sample_host_def reset_counters_def cap_open_def Let_def)
  show ?thesis
    using m c p t
      no_model_no_detections [OF m, of "Tracks [((Finite 10, Finite 560, Finite 20, Finite 30), 7)]"]
    by (simp add: run_iteration_def)
qed

subsection \<open>Loading a model\<close>

lemma free_model_keeps:
  "params (fst (free_model st)) = params st
   \<and> device (fst (free_model st)) = device st
   \<and> ModelLoaded True \<notin> set (snd (free_model st))"
  by (simp add: free_model_def split: option.splits)

text \<open>\<^verbatim>\<open>load_model\<close> either fails and leaves the dictionary as it was, or writes one key.\<close>

lemma load_model_params:
  assumes "load_model e st path = (st1, ev)"
  shows "(params st1 = params st \<and> ModelLoaded True \<notin> set ev)
       \<or> (\<exists>m. yolo_load e path (device st) = Inr m
              \<and> params st1 = (params st)(''model_size'' \<mapsto> imgsz_of m))"
proof -
  obtain s0 e0 where f: "free_model st = (s0, e0)"
    by (cases "free_model st") auto
  have keep: "params s0 = params st" "device s0 = device st" "ModelLoaded True \<notin> set e0"
    using free_model_keeps [of st] f by simp_all
  show ?thesis
  proof (cases "yolo_load e path (device st)")
    case (Inl msg)
    with assms f keep show ?thesis
      by (auto simp add: load_model_def split: if_splits)
  next
    case (Inr m)
    show ?thesis
    proof (cases "fuse_fails m")
      case (Some msg)
      with assms f keep Inr show ?thesis
        by (auto simp add: load_model_def split: if_splits)
    next
      case None
      with assms f keep Inr show ?thesis
        by (auto simp add: load_model_def split: if_splits)
    qed
  qed
qed

text \<open>
  C10: a call of \<^verbatim>\<open>load_model\<close> that reports success has loaded a network m and leaves
  \<^verbatim>\<open>model_size\<close> at the \<^verbatim>\<open>imgsz\<close> of the arguments of m, or at 640 when m has none,
  whatever was stored there before; and no call of \<^verbatim>\<open>load_model\<close>, successful or not,
  changes the value of any other key.
\<close>

theorem load_model_sets_model_size:
  assumes "load_model e st path = (st1, ev)"
  shows "(\<forall>k. k \<noteq> ''model_size'' \<longrightarrow> params st1 k = params st k)
       \<and> (ModelLoaded True \<in> set ev \<longrightarrow>
            (\<exists>m. yolo_load e path (device st) = Inr m
               \<and> params st1 ''model_size'' =
                   Some (case args m ''imgsz'' of None \<Rightarrow> IntV 640 | Some v \<Rightarrow> v)))"
  using load_model_params [OF assms] by (auto simp add: imgsz_of_def)

theorem load_model_sets_model_size_witness:
  "params resized_worker ''model_size'' = Some (IntV 1280)
   \<and> snd (load_model sample_host resized_worker ''m.pt'') = [ModelLoaded True]
   \<and> params (fst (load_model sample_host resized_worker ''m.pt'')) ''model_size''
       = Some (IntV 320)
   \<and> params (fst (load_model sample_host resized_worker ''m.pt'')) ''model_conf''
       = params resized_worker ''model_conf''"
proof -
  have r: "params resized_worker ''model_size'' = Some (IntV 1280)"
    by (simp add: resized_worker_def update_params_def init_def default_params_def)
  have ev: "snd (load_model sample_host resized_worker ''m.pt'') = [ModelLoaded True]"
    by (simp add: load_model_def resized_worker_def update_params_def init_def
        default_params_def free_model_def sample_host_def sample_net_def endswith_def
        str_lower_def lower_char_def Let_def)
  have l: "load_model sample_host resized_worker ''m.pt''
      = (fst (load_model sample_host resized_worker ''m.pt''), [ModelLoaded True])"
    using ev by (metis prod.collapse)
  have y: "yolo_load sample_host ''m.pt'' (device resized_worker) = Inr sample_net"
    by (simp add: sample_host_def)
  have n: "args sample_net ''imgsz'' = Some (IntV 320)"
    by (simp add: sample_net_def)
  show ?thesis
    using load_model_sets_model_size [OF l] r ev y n by simp
qed

subsection \<open>Stopping\<close>


end
